theory Spec2Isabelle
  imports Complex_Main
begin

section \<open>Numbers and errors\<close>

text \<open>
  Python's unbounded integers are \<^typ>\<open>int\<close>. The floating-point quantities of the
  game (vertical position, velocity, displacement, fitness) are embedded as exact
  rationals: every position, velocity and displacement the program computes is a multiple
  of one half, which binary floating point represents exactly, and the fitness constants
  are read as the decimal fractions the source writes.
\<close>

datatype error = IndexError

section \<open>Bird (game/bird.py)\<close>

record bird =
  bird_x :: int
  bird_y :: rat
  tilt :: int
  tick_count :: int
  vel :: rat
  bird_height :: rat
  img_count :: int
  img :: nat

definition MAX_ROTATION :: int where "MAX_ROTATION = 25"
definition ROT_VEL :: int where "ROT_VEL = 20"
definition ANIMATION_TIME :: int where "ANIMATION_TIME = 5"
definition JUMP_VELOCITY :: rat where "JUMP_VELOCITY = - (21 / 2)"
definition GRAVITY :: rat where "GRAVITY = 3"

text \<open>\<open>Bird.__init__\<close>; the field \<open>img\<close> is the index of the current sprite in \<open>images\<close>.\<close>

definition Bird :: "int \<Rightarrow> int \<Rightarrow> bird" where
  "Bird x0 y0 = \<lparr> bird_x = x0, bird_y = of_int y0, tilt = 0, tick_count = 0, vel = 0,
                 bird_height = of_int y0, img_count = 0, img = 0 \<rparr>"

definition jump :: "bird \<Rightarrow> bird" where
  "jump b = b\<lparr> vel := JUMP_VELOCITY, tick_count := 0, bird_height := bird_y b \<rparr>"

text \<open>The displacement formula of \<open>Bird.move\<close>, before the terminal-velocity test.\<close>

definition raw_displacement :: "bird \<Rightarrow> rat" where
  "raw_displacement b =
     vel b * of_int (tick_count b + 1) + (1 / 2) * GRAVITY * (of_int (tick_count b + 1)) ^ 2"

text \<open>The displacement \<open>Bird.move\<close> adds to \<open>y\<close>: terminal velocity, then the upward boost.\<close>

definition displacement :: "bird \<Rightarrow> rat" where
  "displacement b =
     (let d0 = raw_displacement b;
          d1 = (if d0 \<ge> 16 then (d0 / \<bar>d0\<bar>) * 16 else d0)
      in if d1 < 0 then d1 - 2 else d1)"

definition move :: "bird \<Rightarrow> bird" where
  "move b =
     (let d = displacement b;
          y' = bird_y b + d;
          tilt' = (if d < 0 \<or> y' < bird_height b + 50
                   then (if tilt b < MAX_ROTATION then MAX_ROTATION else tilt b)
                   else (if tilt b > - 90 then tilt b - ROT_VEL else tilt b))
      in b\<lparr> tick_count := tick_count b + 1, bird_y := y', tilt := tilt' \<rparr>)"

text \<open>
  \<open>Bird.draw\<close>, as far as it changes the bird: the animation counter and the current
  sprite. The blit itself has no effect on the simulation.
\<close>

definition draw :: "bird \<Rightarrow> bird" where
  "draw b =
     (let c = img_count b + 1;
          b1 = (if c \<le> ANIMATION_TIME then b\<lparr> img_count := c, img := 0 \<rparr>
                else if c \<le> ANIMATION_TIME * 2 then b\<lparr> img_count := c, img := 1 \<rparr>
                else if c \<le> ANIMATION_TIME * 3 then b\<lparr> img_count := c, img := 2 \<rparr>
                else if c \<le> ANIMATION_TIME * 4 then b\<lparr> img_count := c, img := 1 \<rparr>
                else if c = ANIMATION_TIME * 4 + 1 then b\<lparr> img_count := 0, img := 0 \<rparr>
                else b\<lparr> img_count := c \<rparr>)
      in if tilt b1 \<le> - 80 then b1\<lparr> img := 1, img_count := ANIMATION_TIME * 2 \<rparr> else b1)"

section \<open>Pipe (game/pipe.py)\<close>

text \<open>
  The image files are not part of the sources; their sizes are parameters. The top pipe
  is the flipped bottom pipe image, so both have the same width and height.
\<close>

record assets =
  bird_img_height :: "nat \<Rightarrow> int"
  pipe_img_width :: int
  pipe_img_height :: int

record pipe =
  pipe_x :: int
  pipe_height :: int
  pipe_top :: int
  pipe_bottom :: int
  passed :: bool

definition GAP :: int where "GAP = 200"
definition VEL :: int where "VEL = 5"
definition MIN_HEIGHT :: int where "MIN_HEIGHT = 50"
definition MAX_HEIGHT :: int where "MAX_HEIGHT = 450"

text \<open>
  \<open>random.randrange(lo, hi)\<close> of the standard library, by its contract: an integer of
  the half-open range, here computed from a raw sample \<open>e\<close> of the generator.
\<close>

definition randrange :: "int \<Rightarrow> int \<Rightarrow> nat \<Rightarrow> int" where
  "randrange lo hi e = lo + int (e mod nat (hi - lo))"

definition set_height :: "assets \<Rightarrow> nat \<Rightarrow> pipe \<Rightarrow> pipe" where
  "set_height A e p =
     (let h = randrange MIN_HEIGHT MAX_HEIGHT e
      in p\<lparr> pipe_height := h, pipe_top := h - pipe_img_height A, pipe_bottom := h + GAP \<rparr>)"

text \<open>\<open>Pipe.__init__\<close>\<close>

definition Pipe :: "assets \<Rightarrow> int \<Rightarrow> nat \<Rightarrow> pipe" where
  "Pipe A x0 e =
     set_height A e \<lparr> pipe_x = x0, pipe_height = 0, pipe_top = 0, pipe_bottom = 0, passed = False \<rparr>"

definition pipe_move :: "pipe \<Rightarrow> pipe" where
  "pipe_move p = p\<lparr> pipe_x := pipe_x p - VEL \<rparr>"

definition is_off_screen :: "assets \<Rightarrow> pipe \<Rightarrow> bool" where
  "is_off_screen A p \<longleftrightarrow> pipe_x p + pipe_img_width A < 0"

definition mark_passed :: "pipe \<Rightarrow> pipe" where
  "mark_passed p = p\<lparr> passed := True \<rparr>"





section \<open>Removing a bird (ai/trainer.py)\<close>

text \<open>\<open>list.pop(i)\<close>: the list that remains; a negative index counts from the end.\<close>

definition pop :: "'a list \<Rightarrow> int \<Rightarrow> error + 'a list" where
  "pop xs i =
     (let n = int (length xs); j = (if i < 0 then n + i else i)
      in if 0 \<le> j \<and> j < n then Inr (take (nat j) xs @ drop (Suc (nat j)) xs)
         else Inl IndexError)"

definition remove_bird ::
  "int \<Rightarrow> 'b list \<Rightarrow> 'n list \<Rightarrow> 'g list \<Rightarrow> error + ('b list \<times> 'n list \<times> 'g list)" where
  "remove_bird index birds networks genomes =
     (if 0 \<le> index \<and> index < int (length birds) then
        (case pop birds index of
           Inl e \<Rightarrow> Inl e
         | Inr bs \<Rightarrow>
             (case pop networks index of
                Inl e \<Rightarrow> Inl e
              | Inr ns \<Rightarrow>
                  (case pop genomes index of
                     Inl e \<Rightarrow> Inl e
                   | Inr gs \<Rightarrow> Inr (bs, ns, gs))))
      else Inr (birds, networks, genomes))"

section \<open>One generation (ai/trainer.py, \<open>_eval_genomes\<close>)\<close>

text \<open>
  A controller is the function \<open>activate\<close> of a network, read at its first output. A
  genome is a reference to a genome object of the evolution library; the attribute
  \<open>fitness\<close> of the genome objects is a store from references to values, since the
  objects stay alive (and keep their fitness) after they leave the lists of the loop.
\<close>

type_synonym network = "rat \<times> rat \<times> rat \<Rightarrow> rat"
type_synonym genome = nat

text \<open>
  What the loop takes from outside: the image sizes, the pixel-mask test of
  \<open>Pipe.collide\<close>, the network built for a genome, the answer of the k-th call of
  \<open>handle_events\<close> (False after a quit event), and the k-th raw sample of the random
  generator.
\<close>

record env =
  the_assets :: assets
  collide :: "pipe \<Rightarrow> bird \<Rightarrow> bool"
  create_net :: "genome \<Rightarrow> network"
  handle_events :: "nat \<Rightarrow> bool"
  entropy :: "nat \<Rightarrow> nat"

record game =
  st_birds :: "bird list"
  st_networks :: "network list"
  st_genome_list :: "genome list"
  st_fitness :: "genome \<Rightarrow> rat"
  st_pipes :: "pipe list"
  st_score :: int
  st_run :: bool
  st_polls :: nat
  st_draws :: nat

definition WIN_WIDTH :: int where "WIN_WIDTH = 600"
definition FLOOR_Y :: int where "FLOOR_Y = 730"

definition create_bird :: bird where
  "create_bird = Bird 230 350"

text \<open>Lines 159-163: the pipe whose gap is shown to the networks.\<close>

definition pipe_index :: "assets \<Rightarrow> bird list \<Rightarrow> pipe list \<Rightarrow> nat" where
  "pipe_index A bs ps =
     (if length bs > 0 then
        (if length ps > 1 \<and> bird_x (bs ! 0) > pipe_x (ps ! 0) + pipe_img_width A then 1 else 0)
      else 0)"

definition sensors :: "bird \<Rightarrow> pipe \<Rightarrow> rat \<times> rat \<times> rat" where
  "sensors b p =
     (bird_y b, \<bar>bird_y b - of_int (pipe_height p)\<bar>, \<bar>bird_y b - of_int (pipe_bottom p)\<bar>)"

text \<open>
  Lines 166-179, \<open>for i, bird in enumerate(birds)\<close>: the iteration goes on while the
  index is inside the list; an index outside another list raises.
\<close>

function move_birds :: "nat \<Rightarrow> nat \<Rightarrow> game \<Rightarrow> error + game" where
  "move_birds pidx i s =
     (if i < length (st_birds s) then
        (if length (st_genome_list s) \<le> i \<or> length (st_networks s) \<le> i
            \<or> length (st_pipes s) \<le> pidx
         then Inl IndexError
         else
           (let b1 = move (st_birds s ! i);
                g = st_genome_list s ! i;
                fit = (st_fitness s)(g := st_fitness s g + 1 / 10);
                output = (st_networks s ! i) (sensors b1 (st_pipes s ! pidx));
                b2 = (if output > 1 / 2 then jump b1 else b1)
            in move_birds pidx (Suc i) (s\<lparr> st_birds := (st_birds s)[i := b2], st_fitness := fit \<rparr>)))
      else Inr s)"
  by pat_completeness auto
termination
  by (relation "measure (\<lambda>(pidx, i, s). length (st_birds s) - i)") auto

text \<open>
  Lines 192-195, \<open>for i, bird in enumerate(birds)\<close> with removals inside the loop: after
  a removal the iterator goes on at the next index of the shortened list.
\<close>

function collide_birds :: "env \<Rightarrow> pipe \<Rightarrow> nat \<Rightarrow> game \<Rightarrow> error + game" where
  "collide_birds E p i s =
     (if i < length (st_birds s) then
        (if collide E p (st_birds s ! i) then
           (if length (st_genome_list s) \<le> i then Inl IndexError
            else
              (let g = st_genome_list s ! i;
                   fit = (st_fitness s)(g := st_fitness s g - 1)
               in case remove_bird (int i) (st_birds s) (st_networks s) (st_genome_list s) of
                    Inl e \<Rightarrow> Inl e
                  | Inr (bs, ns, gs) \<Rightarrow>
                      collide_birds E p (Suc i)
                        (s\<lparr> st_birds := bs, st_networks := ns, st_genome_list := gs,
                            st_fitness := fit \<rparr>)))
         else collide_birds E p (Suc i) s)
      else Inr s)"
  by pat_completeness auto
termination
  by (relation "measure (\<lambda>(E, p, i, s). length (st_birds s) - i)")
    (auto simp: remove_bird_def pop_def split: sum.splits if_splits)

text \<open>
  Lines 188-204, \<open>for pipe in pipes\<close>: every pipe is moved, tested against the birds,
  noted for removal when off screen and marked when the first bird has passed it. The
  result is the flag \<open>add_pipe\<close>, the pipes to remove, the pipes as the loop leaves them
  and the state. A pipe object is noted for removal before it is marked, and holds the
  mark when it is removed, so the list of removals holds the marked value.
\<close>

fun process_pipes ::
  "env \<Rightarrow> pipe list \<Rightarrow> game \<Rightarrow> error + (bool \<times> pipe list \<times> pipe list \<times> game)" where
  "process_pipes E [] s = Inr (False, [], [], s)"
| "process_pipes E (p # ps) s =
     (let p1 = pipe_move p
      in case collide_birds E p1 0 s of
           Inl e \<Rightarrow> Inl e
         | Inr s1 \<Rightarrow>
             (let off = is_off_screen (the_assets E) p1;
                  pass = (\<not> passed p1 \<and> length (st_birds s1) > 0
                          \<and> pipe_x p1 < bird_x (st_birds s1 ! 0));
                  p2 = (if pass then mark_passed p1 else p1)
              in case process_pipes E ps s1 of
                   Inl e \<Rightarrow> Inl e
                 | Inr (add_pipe, pipes_to_remove, ps', s2) \<Rightarrow>
                     Inr (pass \<or> add_pipe, (if off then [p2] else []) @ pipes_to_remove,
                          p2 # ps', s2)))"

text \<open>Lines 207-215: the score, the reward of every genome still listed, the new pipe.\<close>

definition reward_all :: "genome list \<Rightarrow> (genome \<Rightarrow> rat) \<Rightarrow> (genome \<Rightarrow> rat)" where
  "reward_all gs fit = fold (\<lambda>g f. f(g := f g + 5)) gs fit"

definition add_new_pipe :: "env \<Rightarrow> game \<Rightarrow> game" where
  "add_new_pipe E s =
     s\<lparr> st_score := st_score s + 1,
        st_fitness := reward_all (st_genome_list s) (st_fitness s),
        st_pipes := st_pipes s @ [Pipe (the_assets E) WIN_WIDTH (entropy E (st_draws s))],
        st_draws := Suc (st_draws s) \<rparr>"

text \<open>
  Lines 222-225, \<open>for i in range(len(birds) - 1, -1, -1)\<close>: the counter is one more than
  the index of the bird looked at.
\<close>

fun check_bounds :: "env \<Rightarrow> nat \<Rightarrow> game \<Rightarrow> error + game" where
  "check_bounds E 0 s = Inr s"
| "check_bounds E (Suc i) s =
     (if length (st_birds s) \<le> i then Inl IndexError
      else
        (let b = st_birds s ! i
         in if bird_y b + of_int (bird_img_height (the_assets E) (img b)) \<ge> of_int FLOOR_Y
               \<or> bird_y b < - 50
            then (case remove_bird (int i) (st_birds s) (st_networks s) (st_genome_list s) of
                    Inl e \<Rightarrow> Inl e
                  | Inr (bs, ns, gs) \<Rightarrow>
                      check_bounds E i
                        (s\<lparr> st_birds := bs, st_networks := ns, st_genome_list := gs \<rparr>))
            else check_bounds E i s))"

text \<open>
  The first half of the body of \<open>while run and len(birds) > 0\<close>, after the poll of the
  events: the networks decide (lines 159-179), then the loop over the pipes (lines 184-204).
\<close>

definition decide_birds :: "env \<Rightarrow> game \<Rightarrow> error + game" where
  "decide_birds E s = move_birds (pipe_index (the_assets E) (st_birds s) (st_pipes s)) 0 s"

definition birds_and_pipes ::
  "env \<Rightarrow> game \<Rightarrow> error + (bool \<times> pipe list \<times> pipe list \<times> game)" where
  "birds_and_pipes E s =
     (case decide_birds E s of
        Inl e \<Rightarrow> Inl e
      | Inr s1 \<Rightarrow> process_pipes E (st_pipes s1) s1)"

text \<open>
  One pass through the body of the loop. Removing the noted pipes with \<open>pipes.remove\<close>
  takes out the first equal element; the noted pipes are elements of the list, so the
  removal cannot fail. The clock and the scrolling base have no part in the state the
  loop decides on.
\<close>

definition tick :: "env \<Rightarrow> game \<Rightarrow> error + game" where
  "tick E s =
     (let ok = handle_events E (st_polls s);
          s0 = s\<lparr> st_polls := Suc (st_polls s) \<rparr>
      in if \<not> ok then Inr (s0\<lparr> st_run := False \<rparr>)
         else
           (case birds_and_pipes E s0 of
              Inl e \<Rightarrow> Inl e
            | Inr (add_pipe, pipes_to_remove, ps, s2) \<Rightarrow>
                (let s3 = s2\<lparr> st_pipes := ps \<rparr>;
                     s4 = (if add_pipe then add_new_pipe E s3 else s3);
                     s5 = s4\<lparr> st_pipes := fold remove1 pipes_to_remove (st_pipes s4) \<rparr>
                 in case check_bounds E (length (st_birds s5)) s5 of
                      Inl e \<Rightarrow> Inl e
                    | Inr s6 \<Rightarrow> Inr (s6\<lparr> st_birds := map draw (st_birds s6) \<rparr>))))"

text \<open>
  The loop, with fuel: \<open>None\<close> when the fuel ends while the loop would go on.
\<close>

definition running :: "game \<Rightarrow> bool" where
  "running s \<longleftrightarrow> st_run s \<and> length (st_birds s) > 0"

fun game_loop :: "env \<Rightarrow> nat \<Rightarrow> game \<Rightarrow> (error + game) option" where
  "game_loop E 0 s = (if running s then None else Some (Inr s))"
| "game_loop E (Suc n) s =
     (if running s then
        (case tick E s of
           Inl e \<Rightarrow> Some (Inl e)
         | Inr s' \<Rightarrow> game_loop E n s')
      else Some (Inr s))"

text \<open>Lines 132-147: a network and a bird for every genome, one pipe, score 0.\<close>

definition init_game :: "env \<Rightarrow> genome list \<Rightarrow> (genome \<Rightarrow> rat) \<Rightarrow> game" where
  "init_game E genomes fit =
     \<lparr> st_birds = map (\<lambda>g. create_bird) genomes,
       st_networks = map (create_net E) genomes,
       st_genome_list = genomes,
       st_fitness = fold (\<lambda>g f. f(g := 0)) genomes fit,
       st_pipes = [Pipe (the_assets E) 700 (entropy E 0)],
       st_score = 0,
       st_run = True,
       st_polls = 0,
       st_draws = 1 \<rparr>"

text \<open>The trainer: \<open>best_fitness\<close> starts at \<open>float('-inf')\<close>.\<close>

datatype best = NegInf | Fin rat

record trainer =
  generation :: int
  best_genome :: "genome option"
  best_fitness :: best

definition NEATTrainer :: trainer where
  "NEATTrainer = \<lparr> generation = 0, best_genome = None, best_fitness = NegInf \<rparr>"

fun exceeds :: "rat \<Rightarrow> best \<Rightarrow> bool" where
  "exceeds f NegInf = True"
| "exceeds f (Fin b) = (f > b)"

text \<open>Lines 237-242: the loop over \<open>genome_list\<close> as the game loop left it.\<close>

fun track_best :: "(genome \<Rightarrow> rat) \<Rightarrow> genome list \<Rightarrow> trainer \<Rightarrow> trainer" where
  "track_best fit [] T = T"
| "track_best fit (g # gs) T =
     track_best fit gs
       (if exceeds (fit g) (best_fitness T)
        then T\<lparr> best_fitness := Fin (fit g), best_genome := Some g \<rparr> else T)"

definition eval_genomes ::
  "env \<Rightarrow> nat \<Rightarrow> genome list \<Rightarrow> trainer \<times> (genome \<Rightarrow> rat)
     \<Rightarrow> (error + trainer \<times> (genome \<Rightarrow> rat)) option" where
  "eval_genomes E fuel genomes = (\<lambda>(T, fit).
     (let T1 = T\<lparr> generation := generation T + 1 \<rparr>
      in case game_loop E fuel (init_game E genomes fit) of
           None \<Rightarrow> None
         | Some (Inl e) \<Rightarrow> Some (Inl e)
         | Some (Inr s) \<Rightarrow>
             Some (Inr (track_best (st_fitness s) (st_genome_list s) T1, st_fitness s))))"

section \<open>Training (ai/trainer.py, \<open>train\<close> and \<open>_save_genome\<close>)\<close>

text \<open>
  Of the exceptions of Python two kinds matter here: \<open>KeyboardInterrupt\<close>, which is not
  an \<open>Exception\<close> and so passes \<open>except Exception\<close>, and the subclasses of
  \<open>Exception\<close>, among them every failure of \<open>open\<close> and \<open>pickle.dump\<close>, kept with
  their message. What a call does to the outside is a list of events, in the order in
  which they happen: the records written to the log and the genomes written to files.
\<close>

datatype exn = KeyboardInterrupt | Exception string

datatype 'a outcome = Returns 'a | Raises exn

datatype event = Info string | Error string | Dumped string genome

definition get_checkpoint_path :: "string \<Rightarrow> string" where
  "get_checkpoint_path filename = ''checkpoints/'' @ filename"

text \<open>
  \<open>_save_genome\<close>. The parameter \<open>dump\<close> is the answer of the file system to writing a
  genome to a path: \<open>None\<close> when \<open>open\<close> and \<open>pickle.dump\<close> succeed, the exception
  raised otherwise.
\<close>

definition save_genome ::
  "(string \<Rightarrow> genome \<Rightarrow> exn option) \<Rightarrow> genome \<Rightarrow> string \<Rightarrow> event list
     \<Rightarrow> unit outcome \<times> event list" where
  "save_genome dump genome name evs =
     (let filepath = get_checkpoint_path (name @ ''.pickle'')
      in case dump filepath genome of
           None \<Rightarrow>
             (Returns (), evs @ [Dumped filepath genome, Info (''Genome saved to '' @ filepath)])
         | Some e \<Rightarrow>
             (case e of
                KeyboardInterrupt \<Rightarrow> (Raises KeyboardInterrupt, evs)
              | Exception m \<Rightarrow> (Returns (), evs @ [Error (''Failed to save genome: '' @ m)])))"

text \<open>The two \<open>except\<close> clauses of \<open>train\<close>, lines 103-111.\<close>

definition on_exception ::
  "(string \<Rightarrow> genome \<Rightarrow> exn option) \<Rightarrow> exn \<Rightarrow> trainer \<Rightarrow> event list
     \<Rightarrow> genome outcome \<times> trainer \<times> event list" where
  "on_exception dump e T evs =
     (case e of
        KeyboardInterrupt \<Rightarrow>
          (let evs1 = evs @ [Info ''Training interrupted by user'']
           in case best_genome T of
                None \<Rightarrow> (Raises KeyboardInterrupt, T, evs1)
              | Some g \<Rightarrow>
                  (case save_genome dump g ''interrupted_best'' evs1 of
                     (Returns u, evs2) \<Rightarrow> (Raises KeyboardInterrupt, T, evs2)
                   | (Raises e', evs2) \<Rightarrow> (Raises e', T, evs2)))
      | Exception m \<Rightarrow> (Raises (Exception m), T, evs @ [Error (''Training failed: '' @ m)]))"

text \<open>
  \<open>train\<close>, from the \<open>try\<close> of line 91 on. The parameter \<open>population_run\<close> is the call
  \<open>population.run(self._eval_genomes, max_generations)\<close> of the evolution library: it
  calls \<open>_eval_genomes\<close> once per generation, which changes the trainer, and returns the
  winner or raises. The records that the generations write to the log are left out.
\<close>

definition train ::
  "(string \<Rightarrow> genome \<Rightarrow> exn option) \<Rightarrow> (trainer \<Rightarrow> genome outcome \<times> trainer) \<Rightarrow> trainer
     \<Rightarrow> event list \<Rightarrow> genome outcome \<times> trainer \<times> event list" where
  "train dump population_run T evs =
     (let evs0 = evs @ [Info ''Starting training''];
          (r, T1) = population_run T
      in case r of
           Returns winner \<Rightarrow>
             (case save_genome dump winner ''winner'' evs0 of
                (Returns u, evs1) \<Rightarrow>
                  (Returns winner, T1,
                   evs1 @ [Info ''Training completed'', Info ''Best genome''])
              | (Raises e, evs1) \<Rightarrow> on_exception dump e T1 evs1)
         | Raises e \<Rightarrow> on_exception dump e T1 evs0)"

section \<open>A concrete run\<close>

text \<open>
  Sprites of 48 pixels height, a pipe image of 104 by 640 pixels; no bird ever touches a
  pipe, every network answers 0 (no jump), nobody quits, every pipe has its gap at 300.
\<close>

definition A0 :: assets where
  "A0 = \<lparr> bird_img_height = (\<lambda>i. 48), pipe_img_width = 104, pipe_img_height = 640 \<rparr>"

definition E0 :: env where
  "E0 = \<lparr> the_assets = A0, collide = (\<lambda>p b. False), create_net = (\<lambda>g x. 0),
          handle_events = (\<lambda>k. True), entropy = (\<lambda>k. 250) \<rparr>"

text \<open>
  Two birds at the start position in front of one pipe at x = 700 with its gap at 300: the
  network of the first answers \<open>0.2\<close> at every input, the network of the second with the
  distance to the gap end divided by 100.
\<close>

definition S0 :: game where
  "S0 = \<lparr> st_birds = [create_bird, create_bird],
          st_networks = [(\<lambda>x. 1 / 5), (\<lambda>(y, d_top, d_bottom). d_bottom / 100)],
          st_genome_list = [3, 4],
          st_fitness = (\<lambda>g. 0),
          st_pipes = [Pipe A0 700 250],
          st_score = 0, st_run = True, st_polls = 0, st_draws = 1 \<rparr>"


text \<open>
  One genome, number 7, with fitness 0 before the generation, in the run described above.
\<close>

definition F0 :: "genome \<Rightarrow> rat" where
  "F0 = (\<lambda>g. 0)"

definition G0 :: game where
  "G0 = init_game E0 [7] F0"

text \<open>
  An evolution that is interrupted after genome 7 has become the best genome, a file
  system on which every write succeeds and one on which every write fails.
\<close>

definition interrupted_run :: "trainer \<Rightarrow> genome outcome \<times> trainer" where
  "interrupted_run T = (Raises KeyboardInterrupt, T\<lparr> best_genome := Some 7 \<rparr>)"

definition dump_ok :: "string \<Rightarrow> genome \<Rightarrow> exn option" where
  "dump_ok path g = None"

definition dump_fails :: "string \<Rightarrow> genome \<Rightarrow> exn option" where
  "dump_fails path g = Some (Exception ''No space left on device'')"

section \<open>The correspondence invariant\<close>

text \<open>
  The three lists of the loop have the same length; with \<open>remove_bird\<close> taking the same
  index out of all three, equal lengths mean that index \<open>i\<close> names one bird, its network
  and its genome.
\<close>

definition aligned :: "game \<Rightarrow> bool" where
  "aligned s \<longleftrightarrow>
     length (st_networks s) = length (st_birds s)
     \<and> length (st_genome_list s) = length (st_birds s)"

section \<open>A bird that never jumps\<close>



section \<open>Properties of the list operations\<close>

lemma pop_in_range:
  "0 \<le> i \<Longrightarrow> i < int (length xs) \<Longrightarrow> pop xs i = Inr (take (nat i) xs @ drop (Suc (nat i)) xs)"
  by (simp add: pop_def)

lemma nth_take_drop_Suc:
  "j < length xs - 1 \<Longrightarrow>
   (take k xs @ drop (Suc k) xs) ! j = (if j < k then xs ! j else xs ! Suc j)"
  by (auto simp: nth_append min_def)

lemma length_take_drop_Suc:
  "k < length xs \<Longrightarrow> length (take k xs @ drop (Suc k) xs) = length xs - 1"
  by auto

section \<open>Elimination keeps the parallel lists aligned\<close>

text \<open>
  C1. Eliminating the agent at an in-range index \<open>i\<close> of three lists of equal length
  succeeds and removes position \<open>i\<close> from all three at once: every list is one shorter,
  and at each remaining index \<open>j\<close> the agent, controller and genome are the three that
  stood together before, at \<open>j\<close> when \<open>j < i\<close> and at \<open>j + 1\<close> otherwise.
\<close>

theorem remove_bird_correspondence:
  assumes "length networks = length birds" and "length genomes = length birds"
    and "0 \<le> i" and "i < int (length birds)"
  shows "\<exists>bs ns gs. remove_bird i birds networks genomes = Inr (bs, ns, gs)
           \<and> length bs = length birds - 1 \<and> length ns = length bs \<and> length gs = length bs
           \<and> (\<forall>j < length bs.
                 (bs ! j, ns ! j, gs ! j) =
                   (if int j < i then (birds ! j, networks ! j, genomes ! j)
                    else (birds ! Suc j, networks ! Suc j, genomes ! Suc j)))"
proof -
  let ?k = "nat i"
  let ?cut = "\<lambda>xs. take ?k xs @ drop (Suc ?k) xs"
  have k: "?k < length birds" using assms by simp
  have res: "remove_bird i birds networks genomes = Inr (?cut birds, ?cut networks, ?cut genomes)"
    using assms by (simp add: remove_bird_def pop_in_range)
  have len: "length (?cut birds) = length birds - 1" "length (?cut networks) = length birds - 1"
    "length (?cut genomes) = length birds - 1"
    using k assms(1,2) by (simp_all add: length_take_drop_Suc del: length_append)
  have nth: "(?cut birds ! j, ?cut networks ! j, ?cut genomes ! j) =
               (if int j < i then (birds ! j, networks ! j, genomes ! j)
                else (birds ! Suc j, networks ! Suc j, genomes ! Suc j))"
    if "j < length birds - 1" for j
  proof -
    have "(int j < i) = (j < ?k)" using assms(3) by linarith
    then show ?thesis using that assms(1,2) by (simp add: nth_take_drop_Suc del: length_append)
  qed
  show ?thesis using res len nth by simp
qed

theorem remove_bird_correspondence_witness:
  "remove_bird 1 [10, 20, 30 :: nat] [''a'', ''b'', ''c''] [True, False, True]
     = Inr ([10, 30], [''a'', ''c''], [True, True])"
  using remove_bird_correspondence
    [of "[''a'', ''b'', ''c'']" "[10, 20, 30 :: nat]" "[True, False, True]" 1]
  by (simp add: remove_bird_def pop_def)

text \<open>
  C10. With an index outside \<open>[0, len(birds))\<close>, negative ones included, the elimination
  helper returns normally and leaves the three lists as they were, whatever their lengths.
\<close>

theorem remove_bird_out_of_range:
  "i < 0 \<or> int (length birds) \<le> i \<Longrightarrow>
   remove_bird i birds networks genomes = Inr (birds, networks, genomes)"
  by (auto simp: remove_bird_def)

theorem remove_bird_out_of_range_witness:
  "remove_bird (- 1) [10, 20 :: nat] [''a'', ''b''] [True, False]
     = Inr ([10, 20], [''a'', ''b''], [True, False])
   \<and> remove_bird 2 [10, 20 :: nat] [''a'', ''b''] [True, False]
     = Inr ([10, 20], [''a'', ''b''], [True, False])"
  using remove_bird_out_of_range [of "- 1" "[10, 20 :: nat]" "[''a'', ''b'']" "[True, False]"]
    remove_bird_out_of_range [of 2 "[10, 20 :: nat]" "[''a'', ''b'']" "[True, False]"]
  by simp

section \<open>Jump\<close>

text \<open>
  C8. From every bird state, \<open>jump\<close> sets the velocity to the impulse \<open>-10.5\<close>, resets the
  tick counter to 0 and records the current vertical position as the reference height;
  the position itself is not changed.
\<close>

theorem jump_sets_impulse:
  "vel (jump b) = - (21 / 2) \<and> tick_count (jump b) = 0 \<and> bird_height (jump b) = bird_y b
   \<and> bird_y (jump b) = bird_y b \<and> bird_x (jump b) = bird_x b"
  by (simp add: jump_def JUMP_VELOCITY_def)

section \<open>Physics of one tick\<close>

lemma displacement_cases:
  "displacement b =
     (if raw_displacement b \<ge> 16 then 16
      else if raw_displacement b < 0 then raw_displacement b - 2 else raw_displacement b)"
  by (auto simp: displacement_def Let_def)

lemma move_y: "bird_y (move b) = bird_y b + displacement b"
  by (simp add: move_def Let_def)

text \<open>
  C2, as stated, fails: the second \<open>move\<close> after a jump lifts the bird by 17. The raw
  displacement is \<open>-10.5 * 2 + 1.5 * 4 = -15\<close>, the test \<open>displacement >= 16\<close> leaves it,
  and the boost makes it \<open>-17\<close>.
\<close>

theorem move_displacement_magnitude_counterexample:
  "\<not> \<bar>bird_y (move (move (jump (Bird 230 350)))) - bird_y (move (jump (Bird 230 350)))\<bar> \<le> 16"
  by (simp add: move_def jump_def Bird_def displacement_def raw_displacement_def
      JUMP_VELOCITY_def GRAVITY_def Let_def)

text \<open>
  C2, amended. The displacement \<open>move\<close> adds to the vertical position is at most 16: a raw
  displacement \<open>v0*t + 0.5*g*t^2\<close> of 16 or more is replaced by 16, so a displacement that
  is not negative has magnitude at most 16 and is otherwise the raw one; a negative raw
  displacement has the boost 2 subtracted and is not clamped.
\<close>

theorem move_displacement_upper_clamp:
  "bird_y (move b) - bird_y b \<le> 16
   \<and> (16 \<le> raw_displacement b \<longrightarrow> bird_y (move b) - bird_y b = 16)
   \<and> (0 \<le> raw_displacement b \<longrightarrow> \<bar>bird_y (move b) - bird_y b\<bar> \<le> 16)
   \<and> (0 \<le> raw_displacement b \<and> raw_displacement b < 16 \<longrightarrow>
        bird_y (move b) - bird_y b = raw_displacement b)
   \<and> (raw_displacement b < 0 \<longrightarrow> bird_y (move b) - bird_y b = raw_displacement b - 2)"
  by (simp add: move_y displacement_cases)

theorem move_displacement_upper_clamp_witness:
  "raw_displacement (Bird 230 350\<lparr>tick_count := 5\<rparr>) = 54
   \<and> bird_y (move (Bird 230 350\<lparr>tick_count := 5\<rparr>)) - bird_y (Bird 230 350\<lparr>tick_count := 5\<rparr>) = 16
   \<and> raw_displacement (Bird 230 350) = 3 / 2
   \<and> bird_y (move (Bird 230 350)) - bird_y (Bird 230 350) = 3 / 2
   \<and> raw_displacement (jump (Bird 230 350)) = - 9
   \<and> bird_y (move (jump (Bird 230 350))) - bird_y (jump (Bird 230 350)) = - 11"
  using move_displacement_upper_clamp [of "Bird 230 350\<lparr>tick_count := 5\<rparr>"]
    move_displacement_upper_clamp [of "Bird 230 350"]
    move_displacement_upper_clamp [of "jump (Bird 230 350)"]
  by (simp add: raw_displacement_def Bird_def jump_def JUMP_VELOCITY_def GRAVITY_def)

section \<open>Pipe geometry\<close>




section \<open>The networks decide\<close>

declare move_birds.simps [simp del]
declare collide_birds.simps [simp del]

lemma move_birds_spec:
  "move_birds pidx i s = Inr s' \<Longrightarrow>
     length (st_birds s') = length (st_birds s) \<and> st_networks s' = st_networks s
     \<and> st_genome_list s' = st_genome_list s \<and> st_pipes s' = st_pipes s
     \<and> st_score s' = st_score s \<and> st_run s' = st_run s \<and> st_polls s' = st_polls s
     \<and> st_draws s' = st_draws s
     \<and> (\<forall>j < length (st_birds s).
           st_birds s' ! j =
             (if j < i then st_birds s ! j
              else (let b1 = move (st_birds s ! j)
                    in if (st_networks s ! j) (sensors b1 (st_pipes s ! pidx)) > 1 / 2
                       then jump b1 else b1)))"
proof (induction pidx i s arbitrary: s' rule: move_birds.induct)
  case (1 pidx i s)
  show ?case
  proof (cases "i < length (st_birds s)")
    case False
    with "1.prems" show ?thesis by (simp add: move_birds.simps)
  next
    case True
    have ok: "\<not> (length (st_genome_list s) \<le> i \<or> length (st_networks s) \<le> i
                \<or> length (st_pipes s) \<le> pidx)"
      using "1.prems" True by (auto simp: move_birds.simps [of pidx i s])
    define b1 where "b1 = move (st_birds s ! i)"
    define g where "g = st_genome_list s ! i"
    define fit where "fit = (st_fitness s)(g := st_fitness s g + 1 / 10)"
    define outp where "outp = (st_networks s ! i) (sensors b1 (st_pipes s ! pidx))"
    define b2 where "b2 = (if outp > 1 / 2 then jump b1 else b1)"
    define t where "t = s\<lparr> st_birds := (st_birds s)[i := b2], st_fitness := fit \<rparr>"
    have step: "move_birds pidx i s = move_birds pidx (Suc i) t"
      using True ok
      by (subst move_birds.simps) (simp add: Let_def t_def b2_def outp_def fit_def g_def b1_def)
    have IH: "length (st_birds s') = length (st_birds t) \<and> st_networks s' = st_networks t
     \<and> st_genome_list s' = st_genome_list t \<and> st_pipes s' = st_pipes t
     \<and> st_score s' = st_score t \<and> st_run s' = st_run t \<and> st_polls s' = st_polls t
     \<and> st_draws s' = st_draws t
     \<and> (\<forall>j < length (st_birds t).
           st_birds s' ! j =
             (if j < Suc i then st_birds t ! j
              else (let b1 = move (st_birds t ! j)
                    in if (st_networks t ! j) (sensors b1 (st_pipes t ! pidx)) > 1 / 2
                       then jump b1 else b1)))"
      using "1.IH" [OF True ok b1_def g_def fit_def outp_def b2_def] "1.prems" step
      by (simp add: t_def)
    have nth: "st_birds s' ! j =
             (if j < i then st_birds s ! j
              else (let b1 = move (st_birds s ! j)
                    in if (st_networks s ! j) (sensors b1 (st_pipes s ! pidx)) > 1 / 2
                       then jump b1 else b1))" if "j < length (st_birds s)" for j
    proof -
      consider "j < i" | "j = i" | "i < j" by linarith
      then show ?thesis
      proof cases
        case 1
        then show ?thesis using IH that by (simp add: t_def)
      next
        case 2
        then show ?thesis using IH that
          by (simp add: t_def b2_def outp_def b1_def Let_def)
      next
        case 3
        then show ?thesis using IH that by (simp add: t_def)
      qed
    qed
    show ?thesis using IH nth by (simp add: t_def)
  qed
qed

lemma move_birds_succeeds:
  "length (st_networks s) = length (st_birds s) \<Longrightarrow> length (st_genome_list s) = length (st_birds s)
   \<Longrightarrow> (i < length (st_birds s) \<longrightarrow> pidx < length (st_pipes s))
   \<Longrightarrow> \<exists>s'. move_birds pidx i s = Inr s'"
proof (induction pidx i s rule: move_birds.induct)
  case (1 pidx i s)
  show ?case
  proof (cases "i < length (st_birds s)")
    case False
    then show ?thesis by (simp add: move_birds.simps)
  next
    case True
    have ok: "\<not> (length (st_genome_list s) \<le> i \<or> length (st_networks s) \<le> i
                \<or> length (st_pipes s) \<le> pidx)"
      using "1.prems" True by auto
    show ?thesis
      using "1.IH" [OF True ok refl refl refl refl refl] "1.prems" True ok
      by (subst move_birds.simps) (simp add: Let_def)
  qed
qed

text \<open>
  C6. In a state whose three lists have the same length and that has a pipe, the phase in
  which the networks decide returns normally, and for every bird \<open>i\<close>: the bird is moved,
  its network is applied to the vector (vertical position, distance to the gap start of
  the targeted pipe, distance to the gap end of the targeted pipe), both distances as
  absolute values, and the bird jumps exactly when the output exceeds \<open>0.5\<close>. The targeted
  pipe is the first one, unless there is a second pipe and the x of the first bird
  exceeds the x of the first pipe plus the width of the pipe image.
\<close>

theorem decide_birds_sensors:
  assumes "length (st_networks s) = length (st_birds s)"
    and "length (st_genome_list s) = length (st_birds s)"
    and "st_pipes s \<noteq> []"
  shows "\<exists>s'. decide_birds E s = Inr s' \<and> length (st_birds s') = length (st_birds s)
     \<and> (\<forall>i < length (st_birds s).
          (let target = st_pipes s !
                 (if 1 < length (st_pipes s)
                     \<and> bird_x (st_birds s ! 0) > pipe_x (st_pipes s ! 0) + pipe_img_width (the_assets E)
                  then 1 else 0);
               b1 = move (st_birds s ! i);
               output = (st_networks s ! i)
                 (bird_y b1, \<bar>bird_y b1 - of_int (pipe_height target)\<bar>,
                  \<bar>bird_y b1 - of_int (pipe_bottom target)\<bar>)
           in st_birds s' ! i = (if output > 1 / 2 then jump b1 else b1)))"
proof -
  let ?pidx = "pipe_index (the_assets E) (st_birds s) (st_pipes s)"
  have pidx: "?pidx < length (st_pipes s)"
    using assms(3) by (auto simp: pipe_index_def)
  obtain s' where s': "move_birds ?pidx 0 s = Inr s'"
    using move_birds_succeeds [OF assms(1,2), of 0 ?pidx] pidx by blast
  have eq: "i < length (st_birds s) \<Longrightarrow> ?pidx = (if 1 < length (st_pipes s)
                     \<and> bird_x (st_birds s ! 0) > pipe_x (st_pipes s ! 0) + pipe_img_width (the_assets E)
                  then 1 else 0)" for i
    by (auto simp: pipe_index_def)
  show ?thesis
    using move_birds_spec [OF s'] s' eq
    by (auto simp: decide_birds_def Let_def sensors_def)
qed

theorem decide_birds_sensors_witness:
  "\<exists>s'. decide_birds E0 S0 = Inr s'
     \<and> st_birds s' ! 0 = move (Bird 230 350)
     \<and> st_birds s' ! 1 = jump (move (Bird 230 350))"
  using decide_birds_sensors [of S0 E0]
  by (simp add: S0_def E0_def A0_def create_bird_def Let_def All_less_Suc
      move_def displacement_def raw_displacement_def Bird_def GRAVITY_def jump_def
      Pipe_def set_height_def randrange_def MIN_HEIGHT_def MAX_HEIGHT_def GAP_def
      MAX_ROTATION_def ROT_VEL_def JUMP_VELOCITY_def) blast

section \<open>What the loops of one tick keep\<close>

lemma remove_bird_Inr:
  "remove_bird (int i) bs ns gs = Inr (bs', ns', gs') \<Longrightarrow> i < length bs \<Longrightarrow>
     bs' = take i bs @ drop (Suc i) bs \<and> ns' = take i ns @ drop (Suc i) ns
     \<and> gs' = take i gs @ drop (Suc i) gs \<and> i < length ns \<and> i < length gs"
  by (auto simp: remove_bird_def pop_def Let_def split: if_splits sum.splits)


lemma set_take_drop_Suc: "set (take i xs @ drop (Suc i) xs) \<subseteq> set xs"
  by (auto dest: in_set_takeD in_set_dropD)

lemma collide_birds_stop:
  "\<not> i < length (st_birds s) \<Longrightarrow> collide_birds E p i s = Inr s"
  by (subst collide_birds.simps) simp

lemma collide_birds_skip:
  "i < length (st_birds s) \<Longrightarrow> \<not> collide E p (st_birds s ! i) \<Longrightarrow>
   collide_birds E p i s = collide_birds E p (Suc i) s"
  by (subst collide_birds.simps) simp

lemma collide_birds_hit:
  "i < length (st_birds s) \<Longrightarrow> collide E p (st_birds s ! i) \<Longrightarrow>
   collide_birds E p i s =
     (if length (st_genome_list s) \<le> i then Inl IndexError
      else case remove_bird (int i) (st_birds s) (st_networks s) (st_genome_list s) of
             Inl e \<Rightarrow> Inl e
           | Inr (bs, ns, gs) \<Rightarrow>
               collide_birds E p (Suc i)
                 (s\<lparr> st_birds := bs, st_networks := ns, st_genome_list := gs,
                     st_fitness := (st_fitness s)
                       (st_genome_list s ! i := st_fitness s (st_genome_list s ! i) - 1) \<rparr>))"
  by (subst collide_birds.simps) (simp add: Let_def)

lemma collide_birds_keeps:
  "collide_birds E p i s = Inr s' \<Longrightarrow>
     st_pipes s' = st_pipes s \<and> st_score s' = st_score s \<and> st_run s' = st_run s
     \<and> st_polls s' = st_polls s \<and> st_draws s' = st_draws s
     \<and> length (st_birds s') \<le> length (st_birds s)
     \<and> set (st_birds s') \<subseteq> set (st_birds s)
     \<and> (aligned s \<longrightarrow> aligned s')"
proof (induction E p i s arbitrary: s' rule: collide_birds.induct)
  case (1 E p i s)
  show ?case
  proof (cases "i < length (st_birds s)")
    case False
    with "1.prems" show ?thesis by (simp add: collide_birds_stop)
  next
    case True
    show ?thesis
    proof (cases "collide E p (st_birds s ! i)")
      case False
      with True "1.prems" have "collide_birds E p (Suc i) s = Inr s'"
        by (simp add: collide_birds_skip)
      from "1.IH"(2) [OF True False this] show ?thesis .
    next
      case hit: True
      have ok: "\<not> length (st_genome_list s) \<le> i"
        using "1.prems" True hit by (auto simp: collide_birds_hit)
      obtain bs ns gs where
        rb: "remove_bird (int i) (st_birds s) (st_networks s) (st_genome_list s) = Inr (bs, ns, gs)"
        using "1.prems" True hit ok
        by (auto simp: collide_birds_hit split: sum.splits)
      define t where "t = s\<lparr> st_birds := bs, st_networks := ns, st_genome_list := gs,
        st_fitness := (st_fitness s)
          (st_genome_list s ! i := st_fitness s (st_genome_list s ! i) - 1) \<rparr>"
      have rec: "collide_birds E p (Suc i) t = Inr s'"
        using "1.prems" True hit ok rb by (simp add: collide_birds_hit t_def)
      have IH: "st_pipes s' = st_pipes t \<and> st_score s' = st_score t \<and> st_run s' = st_run t
         \<and> st_polls s' = st_polls t \<and> st_draws s' = st_draws t
         \<and> length (st_birds s') \<le> length (st_birds t)
         \<and> set (st_birds s') \<subseteq> set (st_birds t)
         \<and> (aligned t \<longrightarrow> aligned s')"
        using "1.IH"(1) [OF True hit ok refl refl rb refl refl] rec by (simp add: t_def)
      from remove_bird_Inr [OF rb True]
      have shape: "bs = take i (st_birds s) @ drop (Suc i) (st_birds s)"
        "ns = take i (st_networks s) @ drop (Suc i) (st_networks s)"
        "gs = take i (st_genome_list s) @ drop (Suc i) (st_genome_list s)"
        by simp_all
      have len: "length (st_birds t) \<le> length (st_birds s)"
        by (simp add: t_def shape)
      have sub: "set (st_birds t) \<subseteq> set (st_birds s)"
        using set_take_drop_Suc [of i "st_birds s"] by (simp add: t_def shape)
      have al: "aligned s \<Longrightarrow> aligned t"
        by (simp add: aligned_def t_def shape)
      show ?thesis using IH len sub al by (auto simp: t_def)
    qed
  qed
qed

lemma process_pipes_keeps:
  "process_pipes E ps s = Inr (add_pipe, rem, ps', s') \<Longrightarrow>
     st_pipes s' = st_pipes s \<and> st_score s' = st_score s \<and> st_run s' = st_run s
     \<and> st_polls s' = st_polls s \<and> st_draws s' = st_draws s
     \<and> length (st_birds s') \<le> length (st_birds s)
     \<and> set (st_birds s') \<subseteq> set (st_birds s)
     \<and> (aligned s \<longrightarrow> aligned s')"
proof (induction ps arbitrary: s add_pipe rem ps' s')
  case Nil
  then show ?case by simp
next
  case (Cons p ps)
  from Cons.prems obtain s1 where
    c: "collide_birds E (pipe_move p) 0 s = Inr s1"
    by (auto simp: Let_def split: sum.splits)
  from Cons.prems c obtain a r q where
    r: "process_pipes E ps s1 = Inr (a, r, q, s')"
    by (auto simp: Let_def split: sum.splits prod.splits)
  from collide_birds_keeps [OF c] Cons.IH [OF r] show ?case by auto
qed

lemma check_bounds_keeps:
  "check_bounds E n s = Inr s' \<Longrightarrow>
     st_pipes s' = st_pipes s \<and> st_score s' = st_score s \<and> st_run s' = st_run s
     \<and> st_polls s' = st_polls s \<and> st_draws s' = st_draws s \<and> st_fitness s' = st_fitness s
     \<and> length (st_birds s') \<le> length (st_birds s)
     \<and> set (st_birds s') \<subseteq> set (st_birds s)
     \<and> (aligned s \<longrightarrow> aligned s')"
proof (induction n arbitrary: s s')
  case 0
  then show ?case by simp
next
  case (Suc i)
  have lt: "i < length (st_birds s)"
    using Suc.prems by (auto split: if_splits)
  define b where "b = st_birds s ! i"
  show ?case
  proof (cases "bird_y b + of_int (bird_img_height (the_assets E) (img b)) \<ge> of_int FLOOR_Y
                 \<or> bird_y b < - 50")
    case False
    with Suc.prems lt have "check_bounds E i s = Inr s'"
      by (simp add: Let_def b_def)
    from Suc.IH [OF this] show ?thesis .
  next
    case True
    from Suc.prems lt True obtain bs ns gs where
      rb: "remove_bird (int i) (st_birds s) (st_networks s) (st_genome_list s) = Inr (bs, ns, gs)"
      by (auto simp: Let_def b_def split: sum.splits)
    define t where "t = s\<lparr> st_birds := bs, st_networks := ns, st_genome_list := gs \<rparr>"
    have rec: "check_bounds E i t = Inr s'"
      using Suc.prems lt True rb by (simp add: Let_def b_def t_def)
    from remove_bird_Inr [OF rb lt]
    have shape: "bs = take i (st_birds s) @ drop (Suc i) (st_birds s)"
      "ns = take i (st_networks s) @ drop (Suc i) (st_networks s)"
      "gs = take i (st_genome_list s) @ drop (Suc i) (st_genome_list s)"
      by simp_all
    have len: "length (st_birds t) \<le> length (st_birds s)"
      by (simp add: t_def shape)
    have sub: "set (st_birds t) \<subseteq> set (st_birds s)"
      using set_take_drop_Suc [of i "st_birds s"] by (simp add: t_def shape)
    have al: "aligned s \<Longrightarrow> aligned t"
      by (simp add: aligned_def t_def shape)
    from Suc.IH [OF rec] len sub al show ?thesis by (auto simp: t_def)
  qed
qed

section \<open>Pass events\<close>

lemma process_pipes_pipes:
  "process_pipes E ps s = Inr (add_pipe, rem, ps', s') \<Longrightarrow>
     length ps' = length ps
     \<and> rem = filter (is_off_screen (the_assets E)) ps'
     \<and> (add_pipe \<longleftrightarrow> (\<exists>k < length ps. \<not> passed (ps ! k) \<and> passed (ps' ! k)))
     \<and> (\<forall>k < length ps. ps' ! k = (pipe_move (ps ! k))\<lparr> passed := passed (ps' ! k) \<rparr>
            \<and> (passed (ps ! k) \<longrightarrow> passed (ps' ! k))
            \<and> (\<not> passed (ps ! k) \<and> passed (ps' ! k) \<longrightarrow>
                 (\<exists>b \<in> set (st_birds s). pipe_x (ps ! k) - VEL < bird_x b)))"
proof (induction ps arbitrary: s add_pipe rem ps' s')
  case Nil
  then show ?case by auto
next
  case (Cons p ps)
  define p1 where "p1 = pipe_move p"
  from Cons.prems obtain s1 where
    c: "collide_birds E p1 0 s = Inr s1"
    by (auto simp: Let_def p1_def split: sum.splits)
  define pass where "pass \<longleftrightarrow> \<not> passed p1 \<and> length (st_birds s1) > 0
                          \<and> pipe_x p1 < bird_x (st_birds s1 ! 0)"
  define p2 where "p2 = (if pass then mark_passed p1 else p1)"
  from Cons.prems c obtain a r q where
    r: "process_pipes E ps s1 = Inr (a, r, q, s')"
    by (auto simp: Let_def p1_def split: sum.splits prod.splits)
  have res: "add_pipe = (pass \<or> a)"
    "rem = (if is_off_screen (the_assets E) p1 then [p2] else []) @ r" "ps' = p2 # q"
    using Cons.prems c r by (auto simp: Let_def p1_def pass_def p2_def)
  note IH = Cons.IH [OF r]
  have off: "is_off_screen (the_assets E) p2 = is_off_screen (the_assets E) p1"
    by (simp add: p2_def is_off_screen_def mark_passed_def)
  have sub: "set (st_birds s1) \<subseteq> set (st_birds s)"
    using collide_birds_keeps [OF c] by simp
  have head: "p2 = (pipe_move p)\<lparr> passed := passed p2 \<rparr>" "passed p \<longrightarrow> passed p2"
    "(\<not> passed p \<and> passed p2) = pass"
    by (auto simp: p2_def p1_def pass_def mark_passed_def pipe_move_def)
  have lead: "\<exists>b \<in> set (st_birds s). pipe_x p - VEL < bird_x b" if pass
  proof -
    from that have ne: "0 < length (st_birds s1)" and lt: "pipe_x p1 < bird_x (st_birds s1 ! 0)"
      by (simp_all add: pass_def)
    from ne have "st_birds s1 ! 0 \<in> set (st_birds s1)" by simp
    with sub lt show ?thesis by (auto simp: p1_def pipe_move_def)
  qed
  have flag: "add_pipe \<longleftrightarrow> (\<exists>k < length (p # ps). \<not> passed ((p # ps) ! k) \<and> passed (ps' ! k))"
  proof -
    have "(\<exists>k < length (p # ps). \<not> passed ((p # ps) ! k) \<and> passed (ps' ! k))
          \<longleftrightarrow> (\<not> passed p \<and> passed p2) \<or> (\<exists>k < length ps. \<not> passed (ps ! k) \<and> passed (q ! k))"
      by (simp add: res Ex_less_Suc2)
    then show ?thesis using IH head(3) res(1) by simp
  qed
  have each: "ps' ! k = (pipe_move ((p # ps) ! k))\<lparr> passed := passed (ps' ! k) \<rparr>
            \<and> (passed ((p # ps) ! k) \<longrightarrow> passed (ps' ! k))
            \<and> (\<not> passed ((p # ps) ! k) \<and> passed (ps' ! k) \<longrightarrow>
                 (\<exists>b \<in> set (st_birds s). pipe_x ((p # ps) ! k) - VEL < bird_x b))"
    if "k < length (p # ps)" for k
  proof (cases k)
    case 0
    then show ?thesis using head lead by (auto simp: res)
  next
    case (Suc j)
    then have "j < length ps" using that by simp
    with IH sub collide_birds_keeps [OF c] Suc show ?thesis
      by (auto simp: res)
  qed
  show ?case using IH flag each off by (simp add: res)
qed

lemma fold_remove1_notin:
  "p \<notin> set rs \<Longrightarrow> fold remove1 rs (p # zs) = p # fold remove1 rs zs"
  by (induction rs arbitrary: zs) auto

lemma fold_remove1_filter:
  "fold remove1 (filter P xs) (xs @ ys) = filter (\<lambda>x. \<not> P x) xs @ ys"
proof (induction xs)
  case Nil
  then show ?case by simp
next
  case (Cons x xs)
  show ?case
  proof (cases "P x")
    case True
    with Cons show ?thesis by simp
  next
    case False
    then have "x \<notin> set (filter P xs)" by auto
    from fold_remove1_notin [OF this] False Cons show ?thesis by simp
  qed
qed


lemma decide_birds_keeps:
  "decide_birds E s = Inr s1 \<Longrightarrow>
     st_pipes s1 = st_pipes s \<and> st_score s1 = st_score s \<and> st_run s1 = st_run s
     \<and> st_polls s1 = st_polls s \<and> st_draws s1 = st_draws s
     \<and> st_networks s1 = st_networks s \<and> st_genome_list s1 = st_genome_list s
     \<and> length (st_birds s1) = length (st_birds s)"
  unfolding decide_birds_def by (drule move_birds_spec) simp

lemma birds_and_pipes_keeps:
  assumes "birds_and_pipes E s = Inr (add_pipe, rem, ps, s2)"
  shows "st_score s2 = st_score s \<and> st_run s2 = st_run s \<and> st_polls s2 = st_polls s
     \<and> st_draws s2 = st_draws s \<and> length ps = length (st_pipes s)
     \<and> rem = filter (is_off_screen (the_assets E)) ps
     \<and> (add_pipe \<longleftrightarrow> (\<exists>k < length (st_pipes s). \<not> passed (st_pipes s ! k) \<and> passed (ps ! k)))
     \<and> (aligned s \<longrightarrow> aligned s2)"
proof -
  from assms obtain s1 where d: "decide_birds E s = Inr s1"
    and p: "process_pipes E (st_pipes s1) s1 = Inr (add_pipe, rem, ps, s2)"
    by (auto simp: birds_and_pipes_def split: sum.splits)
  have "aligned s \<Longrightarrow> aligned s1"
    using decide_birds_keeps [OF d] by (simp add: aligned_def)
  then show ?thesis
    using decide_birds_keeps [OF d] process_pipes_keeps [OF p] process_pipes_pipes [OF p]
    by simp
qed

text \<open>
  What a tick that is not stopped leaves, in terms of the state \<open>s2\<close> and the pipes \<open>ps\<close>
  after the loop over the pipes.
\<close>

lemma tick_result:
  assumes "handle_events E (st_polls s)"
    and "birds_and_pipes E (s\<lparr> st_polls := Suc (st_polls s) \<rparr>) = Inr (add_pipe, rem, ps, s2)"
    and "tick E s = Inr s'"
  shows "st_score s' = (if add_pipe then st_score s + 1 else st_score s)"
    and "st_fitness s' =
           (if add_pipe then reward_all (st_genome_list s2) (st_fitness s2) else st_fitness s2)"
    and "st_pipes s' = filter (\<lambda>p. \<not> is_off_screen (the_assets E) p) ps
           @ (if add_pipe then [Pipe (the_assets E) WIN_WIDTH (entropy E (st_draws s))] else [])"
    and "st_run s' = st_run s" and "st_polls s' = Suc (st_polls s)"
    and "aligned s \<Longrightarrow> aligned s'"
    and "length (st_birds s') \<le> length (st_birds s2)"
proof -
  note bp = birds_and_pipes_keeps [OF assms(2)]
  define s3 where "s3 = s2\<lparr> st_pipes := ps \<rparr>"
  define s4 where "s4 = (if add_pipe then add_new_pipe E s3 else s3)"
  define s5 where "s5 = s4\<lparr> st_pipes := fold remove1 rem (st_pipes s4) \<rparr>"
  have t: "tick E s =
      (case check_bounds E (length (st_birds s5)) s5 of
         Inl e \<Rightarrow> Inl e
       | Inr s6 \<Rightarrow> Inr (s6\<lparr> st_birds := map draw (st_birds s6) \<rparr>))"
    using assms(1,2) by (simp add: tick_def Let_def s3_def s4_def s5_def)
  from assms(3) obtain s6 where cb: "check_bounds E (length (st_birds s5)) s5 = Inr s6"
    and s': "s' = s6\<lparr> st_birds := map draw (st_birds s6) \<rparr>"
    unfolding t by (auto split: sum.splits)
  note k = check_bounds_keeps [OF cb]
  have s5: "st_birds s5 = st_birds s2" "st_networks s5 = st_networks s2"
    "st_genome_list s5 = st_genome_list s2" "st_run s5 = st_run s2"
    "st_polls s5 = st_polls s2"
    "st_score s5 = (if add_pipe then st_score s2 + 1 else st_score s2)"
    "st_fitness s5 =
       (if add_pipe then reward_all (st_genome_list s2) (st_fitness s2) else st_fitness s2)"
    by (simp_all add: s5_def s4_def s3_def add_new_pipe_def)
  have pipes5: "st_pipes s5 = filter (\<lambda>p. \<not> is_off_screen (the_assets E) p) ps
           @ (if add_pipe then [Pipe (the_assets E) WIN_WIDTH (entropy E (st_draws s))] else [])"
    using bp fold_remove1_filter [of "is_off_screen (the_assets E)" ps "[]"]
      fold_remove1_filter [of "is_off_screen (the_assets E)" ps]
    by (simp add: s5_def s4_def s3_def add_new_pipe_def)
  show "st_score s' = (if add_pipe then st_score s + 1 else st_score s)"
    using k bp s5 by (simp add: s')
  show "st_fitness s' =
           (if add_pipe then reward_all (st_genome_list s2) (st_fitness s2) else st_fitness s2)"
    using k s5 by (simp add: s')
  show "st_pipes s' = filter (\<lambda>p. \<not> is_off_screen (the_assets E) p) ps
           @ (if add_pipe then [Pipe (the_assets E) WIN_WIDTH (entropy E (st_draws s))] else [])"
    using k pipes5 by (simp add: s')
  show "st_run s' = st_run s"
    using k bp s5 by (simp add: s')
  show "st_polls s' = Suc (st_polls s)"
    using k bp s5 by (simp add: s')
  have "aligned s2 \<Longrightarrow> aligned s5"
    using s5 by (simp add: aligned_def)
  moreover have "aligned s6 \<Longrightarrow> aligned s'"
    by (simp add: aligned_def s')
  ultimately show "aligned s \<Longrightarrow> aligned s'"
    using k bp by (simp add: aligned_def)
  show "length (st_birds s') \<le> length (st_birds s2)"
    using k s5 by (simp add: s')
qed

section \<open>With aligned lists no loop of the tick fails\<close>







section \<open>The end of a generation\<close>

lemma tick_stopped:
  "\<not> handle_events E (st_polls s) \<Longrightarrow>
   tick E s = Inr (s\<lparr> st_polls := Suc (st_polls s), st_run := False \<rparr>)"
  by (simp add: tick_def)

lemma tick_keeps:
  assumes "tick E s = Inr s'"
  shows "st_run s' = (st_run s \<and> handle_events E (st_polls s))"
    and "st_polls s' = Suc (st_polls s)"
    and "aligned s \<Longrightarrow> aligned s'"
proof -
  have "st_run s' = (st_run s \<and> handle_events E (st_polls s))
        \<and> st_polls s' = Suc (st_polls s) \<and> (aligned s \<longrightarrow> aligned s')"
  proof (cases "handle_events E (st_polls s)")
    case False
    with assms show ?thesis by (auto simp: tick_stopped aligned_def)
  next
    case True
    with assms obtain add_pipe rem ps s2 where
      bp: "birds_and_pipes E (s\<lparr> st_polls := Suc (st_polls s) \<rparr>) = Inr (add_pipe, rem, ps, s2)"
      by (auto simp: tick_def Let_def split: sum.splits)
    from tick_result(4,5,6) [OF True bp assms] True show ?thesis by simp
  qed
  then show "st_run s' = (st_run s \<and> handle_events E (st_polls s))"
    and "st_polls s' = Suc (st_polls s)" and "aligned s \<Longrightarrow> aligned s'"
    by simp_all
qed

lemma game_loop_end:
  "game_loop E fuel s = Some (Inr s') \<Longrightarrow> aligned s \<Longrightarrow>
     \<not> running s' \<and> aligned s'
     \<and> ((\<forall>k. handle_events E k) \<and> st_run s \<longrightarrow> st_run s')"
proof (induction fuel arbitrary: s)
  case 0
  then show ?case by (auto split: if_splits)
next
  case (Suc n)
  show ?case
  proof (cases "running s")
    case False
    with Suc.prems show ?thesis by auto
  next
    case True
    with Suc.prems obtain t where t: "tick E s = Inr t" and l: "game_loop E n t = Some (Inr s')"
      by (auto split: sum.splits)
    from tick_keeps [OF t] Suc.prems(2) Suc.IH [OF l] show ?thesis by auto
  qed
qed

lemma init_game_aligned: "aligned (init_game E genomes fit)"
  by (simp add: init_game_def aligned_def)

text \<open>
  A generation that ends because no bird is left ends with an empty \<open>genome_list\<close>: every
  elimination took the genome out together with the bird. The loop of lines 237-242 then
  has nothing to look at, whatever fitness the genomes of the generation reached.
\<close>

lemma eval_genomes_no_update:
  assumes "\<forall>k. handle_events E k"
    and "eval_genomes E fuel genomes (T, fit) = Some (Inr (T', fit'))"
  shows "best_genome T' = best_genome T \<and> best_fitness T' = best_fitness T"
proof -
  from assms(2) obtain s where l: "game_loop E fuel (init_game E genomes fit) = Some (Inr s)"
    and T': "T' = track_best (st_fitness s) (st_genome_list s) (T\<lparr> generation := generation T + 1 \<rparr>)"
    by (auto simp: eval_genomes_def Let_def split: option.splits sum.splits)
  have "st_run (init_game E genomes fit)" by (simp add: init_game_def)
  with game_loop_end [OF l init_game_aligned] assms(1)
  have "st_run s" "\<not> running s" "aligned s" by auto
  then have "st_genome_list s = []" by (simp add: running_def aligned_def)
  with T' show ?thesis by simp
qed

lemma run0:
  "(case game_loop E0 23 G0 of
      Some (Inr s) \<Rightarrow> st_birds s = [] \<and> st_genome_list s = [] \<and> st_polls s = 23
                       \<and> st_fitness s 7 = 23 / 10 \<and> st_run s
    | _ \<Rightarrow> False)"
  by code_simp


text \<open>
  C3, at a failing input. One genome (number 7) whose bird never jumps and meets no pipe:
  the generation ends after 23 ticks, when the bird is at the floor. The genome has reached
  the fitness 2.3, which exceeds the tracked best \<open>-inf\<close> of a new trainer, yet after
  the generation the trainer has no best genome and its best fitness is still \<open>-inf\<close>.
\<close>

theorem eval_genomes_best_not_tracked:
  "\<not> Option.is_none (eval_genomes E0 23 [7] (NEATTrainer, F0))
   \<and> \<not> isl (the (eval_genomes E0 23 [7] (NEATTrainer, F0)))
   \<and> snd (projr (the (eval_genomes E0 23 [7] (NEATTrainer, F0)))) 7 = 23 / 10
   \<and> exceeds (23 / 10) (best_fitness NEATTrainer)
   \<and> best_genome (fst (projr (the (eval_genomes E0 23 [7] (NEATTrainer, F0))))) = None
   \<and> best_fitness (fst (projr (the (eval_genomes E0 23 [7] (NEATTrainer, F0))))) = NegInf"
proof -
  from run0 obtain s where l: "game_loop E0 23 (init_game E0 [7] F0) = Some (Inr s)"
    and s: "st_genome_list s = []" "st_fitness s 7 = 23 / 10"
    by (auto simp: G0_def split: option.splits sum.splits)
  have "eval_genomes E0 23 [7] (NEATTrainer, F0) =
          Some (Inr (NEATTrainer\<lparr> generation := generation NEATTrainer + 1 \<rparr>, st_fitness s))"
    using l s by (simp add: eval_genomes_def Let_def)
  then show ?thesis using s by (simp add: NEATTrainer_def)
qed

section \<open>Falling to the floor\<close>













end
